theory Spec2Isabelle
  imports Complex_Main "HOL-Library.AList"
begin

section \<open>The sample-size estimator of \<^verbatim>\<open>src/scripts/estimate_required_images.py\<close>\<close>

text \<open>
  Conventions of the embedding.
  \<^item> A Python \<^verbatim>\<open>float\<close> is a \<^typ>\<open>real\<close>: arithmetic is exact, there is neither
    rounding nor \<^verbatim>\<open>inf\<close> nor \<^verbatim>\<open>nan\<close>. A Python \<^verbatim>\<open>int\<close> is an \<^typ>\<open>int\<close>.
  \<^item> A Python \<^verbatim>\<open>str\<close> is a \<^typ>\<open>string\<close>; a \<^typ>\<open>char\<close> stands for a code point
    below 256.
  \<^item> A \<^verbatim>\<open>dict\<close> is an association list with distinct keys in insertion order;
    \<^verbatim>\<open>d[k] = v\<close> is \<^const>\<open>AList.update\<close>, which overwrites in place or appends.
  \<^item> Every \<^verbatim>\<open>raise\<close> is a value \<open>Inl e\<close>, one constructor of \<open>error\<close> for each
    place of the script that raises.
  \<^item> The two library calls of the script, the builtin \<^verbatim>\<open>float(str)\<close> and
    \<^verbatim>\<open>statistics.NormalDist().inv_cdf\<close>, are parameters \<open>float_of\<close> and \<open>inv_cdf\<close>
    of the functions that call them. General results hold for every value of the
    parameters; results on concrete inputs take the reader of decimal literals
    \<open>py_float\<close> and the exact quantile function \<open>std_normal_inv_cdf\<close> for them.
\<close>

subsection \<open>Errors\<close>

datatype error =
    ExpectedPair string
      \<comment> \<open>\<^verbatim>\<open>ValueError(f"Expected name:value pair, got '{chunk}'")\<close>\<close>
  | NotAFloat string
      \<comment> \<open>the \<^verbatim>\<open>ValueError\<close> of \<^verbatim>\<open>float(value)\<close>\<close>
  | NoPairs
      \<comment> \<open>\<^verbatim>\<open>ValueError("At least one class:value pair is required.")\<close>\<close>
  | ConfidenceRange
      \<comment> \<open>\<^verbatim>\<open>ValueError("confidence must be in (0, 1)")\<close>\<close>
  | MarginRange
      \<comment> \<open>\<^verbatim>\<open>ValueError("margin must be in (0, 1)")\<close>\<close>
  | BaseRateRange
      \<comment> \<open>\<^verbatim>\<open>ValueError("base_rate must be in (0, 1)")\<close>\<close>
  | BoxesNotPositive
      \<comment> \<open>\<^verbatim>\<open>ValueError("boxes must be positive")\<close>\<close>
  | ConfidencePercentage
      \<comment> \<open>\<^verbatim>\<open>SystemExit("confidence percentage must be less than 100.")\<close>\<close>
  | BoxesPerImageNotPositive string
      \<comment> \<open>\<^verbatim>\<open>SystemExit(f"boxes_per_image for {name} must be positive.")\<close>\<close>
  | MaxOfEmpty
      \<comment> \<open>the \<^verbatim>\<open>ValueError\<close> of \<^verbatim>\<open>max()\<close> on an empty sequence\<close>

subsection \<open>The numeric functions\<close>

text \<open>
  Exact arithmetic stands for the float arithmetic of lines 32, 41 and 47. The model is
  the code up to rounding, and only where the float operations neither overflow nor
  underflow: the code raises \<^verbatim>\<open>OverflowError\<close> when \<^verbatim>\<open>z**2\<close> is out of range,
  \<^verbatim>\<open>ZeroDivisionError\<close> when \<^verbatim>\<open>margin**2\<close> underflows to \<^verbatim>\<open>0.0\<close>, the \<^verbatim>\<open>ValueError\<close> of
  \<^verbatim>\<open>math.sqrt\<close> on a negative argument, and the \<^verbatim>\<open>StatisticsError\<close> of \<^verbatim>\<open>inv_cdf\<close> when
  \<^verbatim>\<open>0.5 + confidence / 2.0\<close> rounds to \<^verbatim>\<open>1.0\<close>; none of these is in the model. What is
  proved below about these functions relates the results of a run of \<^verbatim>\<open>main\<close> that
  returns, or the errors raised by the explicit checks, which compare floats exactly.
\<close>

definition z_score :: "(real \<Rightarrow> real) \<Rightarrow> real \<Rightarrow> error + real" where
  "z_score inv_cdf confidence =
     (if \<not> (0 < confidence \<and> confidence < 1) then Inl ConfidenceRange
      else Inr (inv_cdf (0.5 + confidence / 2.0)))"

definition required_boxes :: "real \<Rightarrow> real \<Rightarrow> real \<Rightarrow> error + real" where
  "required_boxes z margin base_rate =
     (if \<not> (0 < margin \<and> margin < 1) then Inl MarginRange
      else if \<not> (0 < base_rate \<and> base_rate < 1) then Inl BaseRateRange
      else Inr ((z\<^sup>2 * base_rate * (1.0 - base_rate)) / (margin\<^sup>2)))"

definition margin_from_boxes :: "real \<Rightarrow> real \<Rightarrow> real \<Rightarrow> error + real" where
  "margin_from_boxes z base_rate boxes =
     (if boxes \<le> 0 then Inl BoxesNotPositive
      else Inr (z * sqrt (base_rate * (1.0 - base_rate) / boxes)))"

subsection \<open>Strings\<close>

text \<open>
  \<^verbatim>\<open>str.strip()\<close> removes the characters for which \<^verbatim>\<open>str.isspace()\<close> holds; below
  code point 256 these are 9 to 13, 28 to 32, 133 and 160.
\<close>

definition is_space :: "char \<Rightarrow> bool" where
  "is_space c \<longleftrightarrow>
     c \<in> set [CHR 0x09, CHR 0x0A, CHR 0x0B, CHR 0x0C, CHR 0x0D, CHR 0x1C, CHR 0x1D,
              CHR 0x1E, CHR 0x1F, CHR 0x20, CHR 0x85, CHR 0xA0]"

definition strip :: "string \<Rightarrow> string" where
  "strip s = rev (dropWhile is_space (rev (dropWhile is_space s)))"

text \<open>
  The builtin \<^verbatim>\<open>float\<close> trims less than \<^verbatim>\<open>str.strip()\<close>: it keeps the code points 28
  to 31 (and then rejects the text).
\<close>

definition is_float_space :: "char \<Rightarrow> bool" where
  "is_float_space c \<longleftrightarrow>
     c \<in> set [CHR 0x09, CHR 0x0A, CHR 0x0B, CHR 0x0C, CHR 0x0D, CHR 0x20, CHR 0x85, CHR 0xA0]"

definition float_strip :: "string \<Rightarrow> string" where
  "float_strip s = rev (dropWhile is_float_space (rev (dropWhile is_float_space s)))"

text \<open>\<^verbatim>\<open>s.split(sep)\<close> for a separator of one character: never an empty list.\<close>

fun split_on :: "char \<Rightarrow> string \<Rightarrow> string list" where
  "split_on sep [] = [[]]"
| "split_on sep (c # cs) =
     (case split_on sep cs of
        [] \<Rightarrow> [[c]]
      | w # ws \<Rightarrow> if c = sep then [] # w # ws else (c # w) # ws)"

text \<open>
  \<^verbatim>\<open>chunk.split(":", maxsplit=1)\<close> for a chunk that contains a colon: the text before
  the first colon and the text after it.
\<close>

definition split_first_colon :: "string \<Rightarrow> string \<times> string" where
  "split_first_colon chunk =
     (takeWhile (\<lambda>c. c \<noteq> CHR '':'') chunk, drop 1 (dropWhile (\<lambda>c. c \<noteq> CHR '':'') chunk))"

subsection \<open>Parsing the class specification\<close>

text \<open>
  The body of the loop of \<^verbatim>\<open>parse_class_boxes\<close> for one chunk, already stripped,
  with the dictionary \<open>entries\<close> built so far: the dictionary after the chunk, or the
  error raised. \<open>float_of\<close> stands for the builtin \<^verbatim>\<open>float\<close>: \<open>None\<close> where it raises.
\<close>

definition parse_chunk ::
  "(string \<Rightarrow> real option) \<Rightarrow> string \<Rightarrow> (string \<times> real) list
     \<Rightarrow> error + (string \<times> real) list" where
  "parse_chunk float_of chunk entries =
     (if chunk = [] then Inr entries
      else if CHR '':'' \<notin> set chunk then Inl (ExpectedPair chunk)
      else (case split_first_colon chunk of (name, value) \<Rightarrow>
              (case float_of value of
                 None \<Rightarrow> Inl (NotAFloat value)
               | Some v \<Rightarrow> Inr (AList.update (strip name) v entries))))"

text \<open>The loop over the chunks, which stops at the first error.\<close>

fun parse_chunks ::
  "(string \<Rightarrow> real option) \<Rightarrow> string list \<Rightarrow> (string \<times> real) list
     \<Rightarrow> error + (string \<times> real) list" where
  "parse_chunks float_of [] entries = Inr entries"
| "parse_chunks float_of (c # cs) entries =
     (case parse_chunk float_of (strip c) entries of
        Inl e \<Rightarrow> Inl e
      | Inr entries' \<Rightarrow> parse_chunks float_of cs entries')"

definition parse_class_boxes ::
  "(string \<Rightarrow> real option) \<Rightarrow> string \<Rightarrow> error + (string \<times> real) list" where
  "parse_class_boxes float_of raw =
     (case parse_chunks float_of (split_on CHR '','' raw) [] of
        Inl e \<Rightarrow> Inl e
      | Inr entries \<Rightarrow> if entries = [] then Inl NoPairs else Inr entries)"

subsection \<open>The builtin \<^verbatim>\<open>float\<close> on decimal literals\<close>

text \<open>
  The examples need \<^verbatim>\<open>float\<close> on concrete strings. \<open>py_float\<close> reads what Python reads
  as a finite decimal literal: surrounding whitespace, a sign, digits with single
  underscores between them, a point, an exponent. The value is the exact real, not the
  nearest double: a literal such as \<^verbatim>\<open>1e400\<close> or \<^verbatim>\<open>1e-324\<close>, which Python reads as
  \<^verbatim>\<open>inf\<close> or \<^verbatim>\<open>0.0\<close>, keeps its exact value here. \<^verbatim>\<open>inf\<close>, \<^verbatim>\<open>infinity\<close> and
  \<^verbatim>\<open>nan\<close>, which have no real value, are not read. The results on concrete inputs use
  \<open>py_float\<close> on the literals \<^verbatim>\<open>0\<close>, \<^verbatim>\<open>1\<close>, \<^verbatim>\<open>2\<close>, \<^verbatim>\<open>-2\<close> and \<^verbatim>\<open>1.5\<close> only.
\<close>

definition is_digit :: "char \<Rightarrow> bool" where
  "is_digit c \<longleftrightarrow> c \<in> set ''0123456789''"

definition digit_val :: "char \<Rightarrow> nat" where
  "digit_val c = of_char c - 48"

text \<open>The digits that follow a digit: \<open>(["_"] digit)*\<close>, and the text left over.\<close>

fun more_digits :: "string \<Rightarrow> string \<times> string" where
  "more_digits [] = ([], [])"
| "more_digits [c] = (if is_digit c then ([c], []) else ([], [c]))"
| "more_digits (c # d # cs) =
     (if is_digit c then (case more_digits (d # cs) of (ds, rest) \<Rightarrow> (c # ds, rest))
      else if c = CHR ''_'' \<and> is_digit d then
        (case more_digits cs of (ds, rest) \<Rightarrow> (d # ds, rest))
      else ([], c # d # cs))"

text \<open>An optional \<open>digitpart\<close>: \<open>digit (["_"] digit)*\<close> or nothing.\<close>

fun digitpart :: "string \<Rightarrow> string \<times> string" where
  "digitpart [] = ([], [])"
| "digitpart (c # cs) =
     (if is_digit c then (case more_digits cs of (ds, rest) \<Rightarrow> (c # ds, rest))
      else ([], c # cs))"

definition digits_val :: "string \<Rightarrow> nat" where
  "digits_val ds = foldl (\<lambda>n c. 10 * n + digit_val c) 0 ds"

text \<open>An optional sign: \<open>True\<close> for a minus.\<close>

fun sign_of :: "string \<Rightarrow> bool \<times> string" where
  "sign_of [] = (False, [])"
| "sign_of (c # cs) =
     (if c = CHR ''-'' then (True, cs) else if c = CHR ''+'' then (False, cs)
      else (False, c # cs))"

text \<open>An optional exponent and the end of the text: the power of ten to multiply by.\<close>

fun exponent_of :: "string \<Rightarrow> int option" where
  "exponent_of [] = Some 0"
| "exponent_of (c # cs) =
     (if c = CHR ''e'' \<or> c = CHR ''E'' then
        (case sign_of cs of (neg, s1) \<Rightarrow>
         case digitpart s1 of (ds, rest) \<Rightarrow>
           if ds = [] \<or> rest \<noteq> [] then None
           else Some ((if neg then - 1 else 1) * int (digits_val ds)))
      else None)"

definition fraction_of :: "string \<Rightarrow> string \<times> string" where
  "fraction_of s = (case s of c # cs \<Rightarrow> if c = CHR ''.'' then digitpart cs else ([], s)
                   | [] \<Rightarrow> ([], []))"

definition py_float :: "string \<Rightarrow> real option" where
  "py_float s =
     (case sign_of (float_strip s) of (neg, s1) \<Rightarrow>
      case digitpart s1 of (ip, s2) \<Rightarrow>
      case fraction_of s2 of (fp, s3) \<Rightarrow>
        if ip = [] \<and> fp = [] then None
        else (case exponent_of s3 of
                None \<Rightarrow> None
              | Some e \<Rightarrow>
                  Some ((if neg then - 1 else 1)
                        * (real (digits_val ip) + real (digits_val fp) / 10 ^ length fp)
                        * (if 0 \<le> e then 10 ^ nat e else 1 / 10 ^ nat (- e)))))"

subsection \<open>The procedure \<^verbatim>\<open>main\<close>\<close>

text \<open>
  What \<^verbatim>\<open>main\<close> computes and prints: the confidence after normalisation, the z-score,
  the unrounded number of boxes, the images per class, their maximum and, with a
  current image count, one line (name, margin, boxes) for each class.
\<close>

record report =
  confidence_used :: real
  z_used :: real
  boxes_needed :: real
  per_class :: "(string \<times> int) list"
  recommended :: int
  current_margins :: "(string \<times> real \<times> real) list option"

text \<open>Lines 98 to 102: a confidence above 1 is a percentage.\<close>

definition normalize_confidence :: "real \<Rightarrow> error + real" where
  "normalize_confidence confidence =
     (if confidence > 1 then
        (if confidence \<ge> 100 then Inl ConfidencePercentage else Inr (confidence / 100.0))
      else Inr confidence)"

text \<open>
  Lines 106 to 110: the loop that fills the dictionary \<open>per_class\<close>. \<^verbatim>\<open>math.ceil\<close> is
  the exact ceiling; the \<^verbatim>\<open>OverflowError\<close> it raises on an infinite quotient is not in
  the model.
\<close>

fun images_loop ::
  "real \<Rightarrow> (string \<times> real) list \<Rightarrow> (string \<times> int) list \<Rightarrow> error + (string \<times> int) list" where
  "images_loop bn [] acc = Inr acc"
| "images_loop bn ((name, boxes_per_image) # rest) acc =
     (if boxes_per_image \<le> 0 then Inl (BoxesPerImageNotPositive name)
      else images_loop bn rest (AList.update name \<lceil>bn / boxes_per_image\<rceil> acc))"

text \<open>Line 112: \<^verbatim>\<open>max(per_class.values())\<close>, which raises on an empty dictionary.\<close>

definition max_values :: "(string \<times> int) list \<Rightarrow> error + int" where
  "max_values d = (case map snd d of [] \<Rightarrow> Inl MaxOfEmpty | v # vs \<Rightarrow> Inr (fold max vs v))"

text \<open>Lines 126 to 132: the loop of the margin report for \<open>n\<close> labeled images.\<close>

fun margins_loop ::
  "real \<Rightarrow> real \<Rightarrow> int \<Rightarrow> (string \<times> real) list \<Rightarrow> error + (string \<times> real \<times> real) list" where
  "margins_loop z base_rate n [] = Inr []"
| "margins_loop z base_rate n ((name, boxes_per_image) # rest) =
     (case margin_from_boxes z base_rate (of_int n * boxes_per_image) of
        Inl e \<Rightarrow> Inl e
      | Inr m \<Rightarrow>
          (case margins_loop z base_rate n rest of
             Inl e \<Rightarrow> Inl e
           | Inr ms \<Rightarrow> Inr ((name, m, of_int n * boxes_per_image) # ms)))"

text \<open>
  Lines 123 to 132: \<^verbatim>\<open>if args.current_images:\<close> is false for \<^verbatim>\<open>None\<close> and for \<^verbatim>\<open>0\<close>.
\<close>

definition margin_report ::
  "real \<Rightarrow> real \<Rightarrow> int option \<Rightarrow> (string \<times> real) list
     \<Rightarrow> error + (string \<times> real \<times> real) list option" where
  "margin_report z base_rate current_images classes =
     (case current_images of
        None \<Rightarrow> Inr None
      | Some n \<Rightarrow>
          if n = 0 then Inr None
          else (case margins_loop z base_rate n classes of
                  Inl e \<Rightarrow> Inl e
                | Inr ms \<Rightarrow> Inr (Some ms)))"

text \<open>
  \<^verbatim>\<open>main\<close>, with the parsed command line as arguments. An error raised after the first
  report is printed (in the margin report) is the result \<open>Inl\<close> all the same.
\<close>

definition main ::
  "(string \<Rightarrow> real option) \<Rightarrow> (real \<Rightarrow> real) \<Rightarrow> string \<Rightarrow> real \<Rightarrow> real \<Rightarrow> real \<Rightarrow> int option
     \<Rightarrow> error + report" where
  "main float_of inv_cdf class_boxes confidence margin base_rate current_images =
     (case parse_class_boxes float_of class_boxes of
        Inl e \<Rightarrow> Inl e
      | Inr classes \<Rightarrow>
     (case normalize_confidence confidence of
        Inl e \<Rightarrow> Inl e
      | Inr c \<Rightarrow>
     (case z_score inv_cdf c of
        Inl e \<Rightarrow> Inl e
      | Inr z \<Rightarrow>
     (case required_boxes z margin base_rate of
        Inl e \<Rightarrow> Inl e
      | Inr bn \<Rightarrow>
     (case images_loop bn classes [] of
        Inl e \<Rightarrow> Inl e
      | Inr pc \<Rightarrow>
     (case max_values pc of
        Inl e \<Rightarrow> Inl e
      | Inr r \<Rightarrow>
     (case margin_report z base_rate current_images classes of
        Inl e \<Rightarrow> Inl e
      | Inr ms \<Rightarrow>
          Inr \<lparr>confidence_used = c, z_used = z, boxes_needed = bn, per_class = pc,
               recommended = r, current_margins = ms\<rparr>)))))))"

subsection \<open>The library's inverse cumulative distribution function\<close>

text \<open>
  Modelled from the spec: \<^verbatim>\<open>statistics.NormalDist().inv_cdf\<close> belongs to Python's
  standard library and is not part of the repository. Section 4.2 of the specification
  describes it as the inverse cumulative distribution function of the standard normal
  distribution. The distribution function is given by its power series
  \<open>1/2 + (1 / sqrt (2 pi)) * (\<Sum>n. (-1)^n x^(2n+1) / (2^n n! (2n+1)))\<close>: one half and the
  integral of the density \<open>exp (- x\<^sup>2 / 2) / sqrt (2 pi)\<close> from \<open>0\<close> to \<open>x\<close>
  (\<open>DERIV_std_normal_cdf\<close> and \<open>std_normal_cdf_zero\<close> below).
\<close>

definition cdf_term :: "real \<Rightarrow> nat \<Rightarrow> real" where
  "cdf_term x n = x ^ (2 * n + 1) / (2 ^ n * fact n * real (2 * n + 1))"

definition cdf_series :: "real \<Rightarrow> real" where
  "cdf_series x = (\<Sum>n. (- 1) ^ n * cdf_term x n)"

definition std_normal_cdf :: "real \<Rightarrow> real" where
  "std_normal_cdf x = 1 / 2 + cdf_series x / sqrt (2 * pi)"

definition std_normal_inv_cdf :: "real \<Rightarrow> real" where
  "std_normal_inv_cdf p = (THE x. std_normal_cdf x = p)"

text \<open>The coefficients of the same series, indexed by the power of \<open>x\<close>.\<close>

definition cdf_coeff :: "nat \<Rightarrow> real" where
  "cdf_coeff k = (if even k then 0
     else (- 1) ^ ((k - 1) div 2) / (2 ^ ((k - 1) div 2) * fact ((k - 1) div 2) * real k))"

subsection \<open>The class specification in the words of the specification\<close>

text \<open>
  Section 4.1 of the specification: the chunks are the comma-separated pieces of the
  input, trimmed, without the empty ones; a chunk splits at its first colon into a name,
  trimmed, and the text of a value.
\<close>

definition chunks_of :: "string \<Rightarrow> string list" where
  "chunks_of raw = filter (\<lambda>c. c \<noteq> []) (map strip (split_on CHR '','' raw))"

definition name_of :: "string \<Rightarrow> string" where
  "name_of chunk = strip (fst (split_first_colon chunk))"

definition value_text :: "string \<Rightarrow> string" where
  "value_text chunk = snd (split_first_colon chunk)"

text \<open>A well-formed input: at least one chunk, each with a colon and a numeric value.\<close>

definition well_formed :: "(string \<Rightarrow> real option) \<Rightarrow> string \<Rightarrow> bool" where
  "well_formed float_of raw \<longleftrightarrow>
     chunks_of raw \<noteq> [] \<and>
     (\<forall>c \<in> set (chunks_of raw). CHR '':'' \<in> set c \<and> float_of (value_text c) \<noteq> None)"

definition pairs_of :: "(string \<Rightarrow> real option) \<Rightarrow> string \<Rightarrow> (string \<times> real) list" where
  "pairs_of float_of raw =
     map (\<lambda>c. (name_of c, the (float_of (value_text c)))) (chunks_of raw)"

text \<open>The value of the last pair of a list that carries the name \<open>k\<close>.\<close>

fun last_value :: "string \<Rightarrow> (string \<times> real) list \<Rightarrow> real option" where
  "last_value k [] = None"
| "last_value k ((k', v) # ps) =
     (case last_value k ps of Some w \<Rightarrow> Some w | None \<Rightarrow> if k' = k then Some v else None)"

section \<open>Lemmas\<close>

subsection \<open>The parser\<close>

lemma parse_chunk_empty: "parse_chunk f [] entries = Inr entries"
  by (simp add: parse_chunk_def)

lemma parse_chunk_good:
  "chunk \<noteq> [] \<Longrightarrow> CHR '':'' \<in> set chunk \<Longrightarrow> f (value_text chunk) = Some v \<Longrightarrow>
   parse_chunk f chunk entries = Inr (AList.update (name_of chunk) v entries)"
  by (auto simp: parse_chunk_def value_text_def name_of_def split: prod.splits)

lemma parse_chunk_Inl_iff:
  "(\<exists>e. parse_chunk f chunk entries = Inl e) \<longleftrightarrow>
     chunk \<noteq> [] \<and> (CHR '':'' \<notin> set chunk \<or> f (value_text chunk) = None)"
  by (auto simp: parse_chunk_def value_text_def split: prod.splits option.splits)

lemma parse_chunk_Inr_cases:
  "parse_chunk f chunk entries = Inr es \<Longrightarrow>
     (chunk = [] \<and> es = entries) \<or>
     (chunk \<noteq> [] \<and> CHR '':'' \<in> set chunk \<and>
        (\<exists>v. f (value_text chunk) = Some v \<and> es = AList.update (name_of chunk) v entries))"
  by (auto simp: parse_chunk_def value_text_def name_of_def split: prod.splits option.splits if_splits)

lemma parse_chunks_Inl_iff:
  "(\<exists>e. parse_chunks f cs entries = Inl e) \<longleftrightarrow>
     (\<exists>c \<in> set cs. strip c \<noteq> [] \<and> (CHR '':'' \<notin> set (strip c) \<or> f (value_text (strip c)) = None))"
proof (induction cs arbitrary: entries)
  case Nil
  then show ?case by simp
next
  case (Cons c cs)
  show ?case
  proof (cases "parse_chunk f (strip c) entries")
    case (Inl e)
    then have "strip c \<noteq> [] \<and> (CHR '':'' \<notin> set (strip c) \<or> f (value_text (strip c)) = None)"
      using parse_chunk_Inl_iff [THEN iffD1, of f "strip c" entries, OF exI] by simp
    with Inl show ?thesis by auto
  next
    case (Inr es)
    then have "\<not> (strip c \<noteq> [] \<and> (CHR '':'' \<notin> set (strip c) \<or> f (value_text (strip c)) = None))"
      using parse_chunk_Inl_iff [of f "strip c" entries] by auto
    with Inr Cons.IH [of es] show ?thesis by auto
  qed
qed

lemma update_not_Nil: "AList.update k v al \<noteq> []"
  by (cases al) auto

lemma parse_chunks_Inr_Nil_iff:
  "parse_chunks f cs entries = Inr es \<Longrightarrow> es = [] \<longleftrightarrow> entries = [] \<and> (\<forall>c \<in> set cs. strip c = [])"
proof (induction cs arbitrary: entries)
  case Nil
  then show ?case by auto
next
  case (Cons c cs)
  from Cons.prems obtain es' where 1: "parse_chunk f (strip c) entries = Inr es'"
    and 2: "parse_chunks f cs es' = Inr es"
    by (auto split: sum.splits)
  from parse_chunk_Inr_cases [OF 1] Cons.IH [OF 2] show ?case
    by (auto simp: update_not_Nil)
qed

lemma parse_class_boxes_Inl_iff:
  "(\<exists>e. parse_class_boxes f raw = Inl e) \<longleftrightarrow>
     (\<exists>c \<in> set (chunks_of raw). CHR '':'' \<notin> set c)
     \<or> (\<exists>c \<in> set (chunks_of raw). CHR '':'' \<in> set c \<and> f (value_text c) = None)
     \<or> chunks_of raw = []"
proof (cases "parse_chunks f (split_on CHR '','' raw) []")
  case (Inl e)
  then have "\<exists>e. parse_chunks f (split_on CHR '','' raw) [] = Inl e" by blast
  then obtain c where "c \<in> set (split_on CHR '','' raw)" "strip c \<noteq> []"
    "CHR '':'' \<notin> set (strip c) \<or> f (value_text (strip c)) = None"
    unfolding parse_chunks_Inl_iff by blast
  then have "strip c \<in> set (chunks_of raw)" by (auto simp: chunks_of_def)
  with \<open>CHR '':'' \<notin> set (strip c) \<or> f (value_text (strip c)) = None\<close>
  have "(\<exists>c \<in> set (chunks_of raw). CHR '':'' \<notin> set c)
     \<or> (\<exists>c \<in> set (chunks_of raw). CHR '':'' \<in> set c \<and> f (value_text c) = None)" by blast
  with Inl show ?thesis by (auto simp: parse_class_boxes_def)
next
  case (Inr es)
  then have no: "\<not> (\<exists>e. parse_chunks f (split_on CHR '','' raw) [] = Inl e)" by simp
  have good: "\<forall>c \<in> set (chunks_of raw). CHR '':'' \<in> set c \<and> f (value_text c) \<noteq> None"
    using no unfolding parse_chunks_Inl_iff by (auto simp: chunks_of_def)
  have "es = [] \<longleftrightarrow> chunks_of raw = []"
    using parse_chunks_Inr_Nil_iff [OF Inr] by (auto simp: chunks_of_def filter_empty_conv)
  with Inr good show ?thesis by (auto simp: parse_class_boxes_def)
qed

lemma parse_chunks_map_of:
  assumes "\<forall>c \<in> set cs. strip c \<noteq> [] \<longrightarrow> CHR '':'' \<in> set (strip c) \<and> f (value_text (strip c)) \<noteq> None"
  shows "\<exists>es. parse_chunks f cs entries = Inr es \<and>
           map_of es = map_of entries ++
             map_of (rev (map (\<lambda>c. (name_of c, the (f (value_text c))))
                            (filter (\<lambda>c. c \<noteq> []) (map strip cs))))
         \<and> (distinct (map fst entries) \<longrightarrow> distinct (map fst es))"
  using assms
proof (induction cs arbitrary: entries)
  case Nil
  then show ?case by simp
next
  case (Cons c cs)
  show ?case
  proof (cases "strip c = []")
    case True
    with Cons.IH [of entries] Cons.prems show ?thesis
      by (simp add: parse_chunk_empty)
  next
    case False
    with Cons.prems obtain v where v: "f (value_text (strip c)) = Some v"
      and col: "CHR '':'' \<in> set (strip c)" by auto
    let ?e = "AList.update (name_of (strip c)) v entries"
    have step: "parse_chunk f (strip c) entries = Inr ?e"
      using parse_chunk_good [of "strip c" f v entries] False col v by simp
    from Cons.IH [of ?e] Cons.prems obtain es where
      es: "parse_chunks f cs ?e = Inr es"
      and m: "map_of es = map_of ?e ++
             map_of (rev (map (\<lambda>c. (name_of c, the (f (value_text c))))
                            (filter (\<lambda>c. c \<noteq> []) (map strip cs))))"
      and d: "distinct (map fst ?e) \<longrightarrow> distinct (map fst es)"
      by auto
    have "map_of ?e = map_of entries ++ map_of [(name_of (strip c), v)]"
      by (simp add: update_conv' fun_eq_iff map_add_def)
    with m have "map_of es = map_of entries ++
             map_of (rev (map (\<lambda>c. (name_of c, the (f (value_text c))))
                            (filter (\<lambda>c. c \<noteq> []) (map strip (c # cs)))))"
      using False v by (simp del: map_of.simps add: map_of_append)
    moreover have "distinct (map fst entries) \<longrightarrow> distinct (map fst es)"
      using d by (simp add: distinct_update)
    ultimately show ?thesis using step es by simp
  qed
qed

lemma parse_class_boxes_well_formed:
  assumes "well_formed f raw"
  shows "\<exists>es. parse_class_boxes f raw = Inr es \<and> es \<noteq> [] \<and> distinct (map fst es)
           \<and> map_of es = map_of (rev (pairs_of f raw))"
proof -
  have g: "\<forall>c \<in> set (split_on CHR '','' raw). strip c \<noteq> [] \<longrightarrow>
             CHR '':'' \<in> set (strip c) \<and> f (value_text (strip c)) \<noteq> None"
    using assms by (auto simp: well_formed_def chunks_of_def)
  from parse_chunks_map_of [OF g, of "[]"] obtain es where
    es: "parse_chunks f (split_on CHR '','' raw) [] = Inr es"
    and m: "map_of es = map_of (rev (pairs_of f raw))"
    and d: "distinct (map fst es)"
    by (auto simp: pairs_of_def chunks_of_def)
  have "es \<noteq> []"
    using parse_chunks_Inr_Nil_iff [OF es] assms
    by (auto simp: well_formed_def chunks_of_def filter_empty_conv)
  with es m d show ?thesis by (simp add: parse_class_boxes_def)
qed

lemma split_on_no_sep: "sep \<notin> set s \<Longrightarrow> split_on sep s = [s]"
  by (induction s) auto

lemma in_set_dropWhile: "x \<in> set s \<Longrightarrow> \<not> P x \<Longrightarrow> x \<in> set (dropWhile P s)"
  by (induction s) auto

lemma in_set_strip: "x \<in> set s \<Longrightarrow> \<not> is_space x \<Longrightarrow> x \<in> set (strip s)"
  by (simp add: strip_def in_set_dropWhile)

lemma colon_not_space: "\<not> is_space CHR '':''"
  by (simp add: is_space_def)

lemma parse_single_pair:
  assumes "CHR '','' \<notin> set raw" "CHR '':'' \<in> set raw" "f (value_text (strip raw)) = Some v"
  shows "parse_class_boxes f raw = Inr [(name_of (strip raw), v)]"
proof -
  have c: "CHR '':'' \<in> set (strip raw)"
    using assms(2) colon_not_space by (rule in_set_strip)
  then have ne: "strip raw \<noteq> []" by auto
  show ?thesis
    using parse_chunk_good [of "strip raw" f v "[]"] ne c assms(1,3)
    by (simp add: parse_class_boxes_def split_on_no_sep)
qed

subsection \<open>The loops of \<^verbatim>\<open>main\<close>\<close>

lemma parse_chunks_distinct:
  "parse_chunks f cs entries = Inr es \<Longrightarrow> distinct (map fst entries) \<Longrightarrow> distinct (map fst es)"
proof (induction cs arbitrary: entries)
  case Nil
  then show ?case by simp
next
  case (Cons c cs)
  from Cons.prems(1) obtain es' where 1: "parse_chunk f (strip c) entries = Inr es'"
    and 2: "parse_chunks f cs es' = Inr es"
    by (auto split: sum.splits)
  from parse_chunk_Inr_cases [OF 1] Cons.prems(2) have "distinct (map fst es')"
    by (auto simp: distinct_update)
  with Cons.IH [OF 2] show ?case .
qed

lemma parse_class_boxes_distinct:
  "parse_class_boxes f raw = Inr es \<Longrightarrow> distinct (map fst es) \<and> es \<noteq> []"
  using parse_chunks_distinct [of f "split_on CHR '','' raw" "[]" es]
  by (auto simp: parse_class_boxes_def split: sum.splits if_splits)

lemma update_fresh: "k \<notin> fst ` set al \<Longrightarrow> AList.update k v al = al @ [(k, v)]"
  by (induction al) auto


lemma images_loop_Inl_error:
  "images_loop bn classes acc = Inl e \<Longrightarrow>
     \<exists>(name, bpi) \<in> set classes. bpi \<le> 0 \<and> e = BoxesPerImageNotPositive name"
  by (induction bn classes acc rule: images_loop.induct) (auto split: if_splits)

lemma images_loop_Inr:
  "images_loop bn classes acc = Inr pc \<Longrightarrow> distinct (map fst classes) \<Longrightarrow>
   fst ` set classes \<inter> fst ` set acc = {} \<Longrightarrow>
   pc = acc @ map (\<lambda>(name, bpi). (name, \<lceil>bn / bpi\<rceil>)) classes \<and> (\<forall>(name, bpi) \<in> set classes. 0 < bpi)"
proof (induction bn classes acc rule: images_loop.induct)
  case (1 bn acc)
  then show ?case by simp
next
  case (2 bn name bpi rest acc)
  from "2.prems"(1) have pos: "\<not> bpi \<le> 0" by (auto split: if_splits)
  with "2.prems"(1) have run: "images_loop bn rest (AList.update name \<lceil>bn / bpi\<rceil> acc) = Inr pc"
    by simp
  have fresh: "name \<notin> fst ` set acc" using "2.prems"(3) by auto
  then have upd: "AList.update name \<lceil>bn / bpi\<rceil> acc = acc @ [(name, \<lceil>bn / bpi\<rceil>)]"
    by (rule update_fresh)
  have d: "distinct (map fst rest)" using "2.prems"(2) by simp
  have disj: "fst ` set rest \<inter> fst ` set (AList.update name \<lceil>bn / bpi\<rceil> acc) = {}"
    using "2.prems"(2,3) unfolding upd by auto
  from "2.IH" [OF pos run d disj] pos show ?case
    unfolding upd by auto
qed


lemma main_Inr_D:
  assumes "main f icdf cb conf m p cur = Inr r"
  shows "\<exists>classes. parse_class_boxes f cb = Inr classes
           \<and> normalize_confidence conf = Inr (confidence_used r)
           \<and> z_score icdf (confidence_used r) = Inr (z_used r)
           \<and> required_boxes (z_used r) m p = Inr (boxes_needed r)
           \<and> images_loop (boxes_needed r) classes [] = Inr (per_class r)
           \<and> max_values (per_class r) = Inr (recommended r)
           \<and> margin_report (z_used r) p cur classes = Inr (current_margins r)"
  using assms by (auto simp: main_def split: sum.splits)

subsection \<open>Evaluation on concrete inputs\<close>

lemmas eval_defs = parse_class_boxes_def parse_chunk_def strip_def is_space_def
  float_strip_def is_float_space_def
  split_first_colon_def py_float_def fraction_of_def is_digit_def digits_val_def digit_val_def

lemma parse_header_one: "parse_class_boxes py_float ''header:1'' = Inr [(''header'', 1)]"
  by (simp add: eval_defs)

lemma parse_ex1: "parse_class_boxes py_float ''header:1,body:1.5'' = Inr [(''header'', 1), (''body'', 3 / 2)]"
  by (simp add: eval_defs)

lemma parse_ex2: "parse_class_boxes py_float ''header:1,header:2'' = Inr [(''header'', 2)]"
  by (simp add: eval_defs)




lemma parse_bad: "parse_class_boxes py_float ''bad'' = Inl (ExpectedPair ''bad'')"
  by (simp add: eval_defs)

lemma parse_empty: "parse_class_boxes py_float '''' = Inl NoPairs"
  by (simp add: eval_defs)

lemma chunks_ex: "chunks_of ''header:1,header:2'' = [''header:1'', ''header:2'']"
  by (simp add: chunks_of_def strip_def is_space_def)

lemma wf_ex: "well_formed py_float ''header:1,header:2''"
  by (simp add: well_formed_def chunks_ex value_text_def eval_defs)

lemma pairs_ex: "pairs_of py_float ''header:1,header:2'' = [(''header'', 1), (''header'', 2)]"
  by (simp add: pairs_of_def chunks_ex value_text_def name_of_def eval_defs)

lemma last_value_map_of: "last_value k ps = map_of (rev ps) k"
  by (induction ps) (auto simp: map_of_append map_add_def split: option.splits)

subsection \<open>Errors of the steps of \<^verbatim>\<open>main\<close>\<close>

lemma parse_chunk_error:
  "parse_chunk f chunk entries = Inl e \<Longrightarrow> (\<exists>s. e = ExpectedPair s) \<or> (\<exists>s. e = NotAFloat s)"
  by (auto simp: parse_chunk_def split: if_splits prod.splits option.splits)

lemma parse_chunks_error:
  "parse_chunks f cs entries = Inl e \<Longrightarrow> (\<exists>s. e = ExpectedPair s) \<or> (\<exists>s. e = NotAFloat s)"
proof (induction cs arbitrary: entries)
  case Nil
  then show ?case by simp
next
  case (Cons c cs)
  show ?case
  proof (cases "parse_chunk f (strip c) entries")
    case (Inl e')
    with Cons.prems have "e' = e" by simp
    with Inl show ?thesis using parse_chunk_error by blast
  next
    case (Inr es)
    with Cons.prems have "parse_chunks f cs es = Inl e" by simp
    then show ?thesis by (rule Cons.IH)
  qed
qed

lemma parse_class_boxes_error:
  "parse_class_boxes f raw = Inl e \<Longrightarrow>
     (\<exists>s. e = ExpectedPair s) \<or> (\<exists>s. e = NotAFloat s) \<or> e = NoPairs"
  using parse_chunks_error [of f "split_on CHR '','' raw" "[]" e]
  by (auto simp: parse_class_boxes_def split: sum.splits if_splits)

lemma margins_loop_error: "margins_loop z p n classes = Inl e \<Longrightarrow> e = BoxesNotPositive"
  by (induction z p n classes rule: margins_loop.induct)
     (auto simp: margin_from_boxes_def split: if_splits sum.splits)

lemma margin_report_error: "margin_report z p cur classes = Inl e \<Longrightarrow> e = BoxesNotPositive"
  by (auto simp: margin_report_def split: option.splits if_splits sum.splits dest: margins_loop_error)

lemma images_loop_error:
  "images_loop bn classes acc = Inl e \<Longrightarrow> \<exists>s. e = BoxesPerImageNotPositive s"
  using images_loop_Inl_error by fastforce

lemma main_ConfidencePercentage_iff:
  "main f icdf cb c m p cur = Inl ConfidencePercentage
     \<longleftrightarrow> (\<exists>classes. parse_class_boxes f cb = Inr classes) \<and> 100 \<le> c"
proof (cases "parse_class_boxes f cb")
  case (Inl e)
  then have "main f icdf cb c m p cur = Inl e" by (simp add: main_def)
  moreover have "e \<noteq> ConfidencePercentage" using parse_class_boxes_error [OF Inl] by auto
  ultimately show ?thesis using Inl by simp
next
  case (Inr classes)
  show ?thesis
  proof (cases "100 \<le> c")
    case True
    then show ?thesis using Inr by (simp add: main_def normalize_confidence_def)
  next
    case False
    then have "normalize_confidence c = Inr (if 1 < c then c / 100 else c)"
      by (simp add: normalize_confidence_def)
    then obtain c' where n: "normalize_confidence c = Inr c'" by blast
    have "main f icdf cb c m p cur \<noteq> Inl ConfidencePercentage"
      using Inr n
      by (auto simp: main_def z_score_def required_boxes_def max_values_def
               split: sum.splits if_splits list.splits
               dest: images_loop_error margin_report_error)
    with False show ?thesis by simp
  qed
qed

lemma main_header_one:
  "0 < c \<Longrightarrow> c < 1 \<Longrightarrow> main py_float icdf ''header:1'' c (5 / 100) (1 / 2) None =
     Inr \<lparr>confidence_used = c, z_used = icdf (1 / 2 + c / 2),
          boxes_needed = (icdf (1 / 2 + c / 2))\<^sup>2 * 100,
          per_class = [(''header'', \<lceil>(icdf (1 / 2 + c / 2))\<^sup>2 * 100\<rceil>)],
          recommended = \<lceil>(icdf (1 / 2 + c / 2))\<^sup>2 * 100\<rceil>,
          current_margins = None\<rparr>"
  by (simp add: main_def parse_header_one normalize_confidence_def z_score_def
        required_boxes_def max_values_def margin_report_def power2_eq_square mult.commute)

lemma margin_report_zero:
  "margin_report z p (Some 0) classes = Inr None \<and> margin_report z p None classes = Inr None"
  by (simp add: margin_report_def)

lemma margins_loop_negative:
  "n < 0 \<Longrightarrow> classes \<noteq> [] \<Longrightarrow> \<forall>(name, bpi) \<in> set classes. 0 < bpi \<Longrightarrow>
   margins_loop z p n classes = Inl BoxesNotPositive"
  by (cases classes) (auto simp: margin_from_boxes_def mult_le_0_iff)

lemma main_negative_current_images:
  assumes "main f icdf cb c m p None = Inr r" "n < 0"
  shows "main f icdf cb c m p (Some n) = Inl BoxesNotPositive"
proof -
  from main_Inr_D [OF assms(1)] obtain classes where
    pc: "parse_class_boxes f cb = Inr classes"
    and il: "images_loop (boxes_needed r) classes [] = Inr (per_class r)"
    by blast
  from parse_class_boxes_distinct [OF pc] have d: "distinct (map fst classes)" and ne: "classes \<noteq> []"
    by auto
  from images_loop_Inr [OF il d] have pos: "\<forall>(name, bpi) \<in> set classes. 0 < bpi" by simp
  have "margins_loop (z_used r) p n classes = Inl BoxesNotPositive"
    using margins_loop_negative [OF assms(2) ne pos] .
  then have "margin_report (z_used r) p (Some n) classes = Inl BoxesNotPositive"
    using assms(2) by (simp add: margin_report_def)
  with main_Inr_D [OF assms(1)] pc show ?thesis
    by (auto simp: main_def)
qed

lemma chunks_bad: "chunks_of ''bad'' = [''bad'']"
  by (simp add: chunks_of_def strip_def is_space_def)



subsection \<open>The standard normal distribution function\<close>

lemma cdf_term_abs_le: "\<bar>(- 1) ^ n * cdf_term x n\<bar> \<le> \<bar>x\<bar> * (inverse (fact n) * (x\<^sup>2 / 2) ^ n)"
proof -
  have "\<bar>(- 1) ^ n * cdf_term x n\<bar> = \<bar>x\<bar> * ((x\<^sup>2 / 2) ^ n / fact n) / real (2 * n + 1)"
    by (simp add: cdf_term_def abs_mult power_abs power_mult power_divide abs_divide
          flip: power2_eq_square)
  also have "\<dots> \<le> \<bar>x\<bar> * ((x\<^sup>2 / 2) ^ n / fact n) / 1"
    by (rule divide_left_mono) (simp_all add: zero_le_mult_iff)
  finally show ?thesis by (simp add: field_simps)
qed

lemma summable_cdf_term: "summable (\<lambda>n. (- 1) ^ n * cdf_term x n)"
proof (rule summable_comparison_test')
  show "summable (\<lambda>n. \<bar>x\<bar> * (inverse (fact n) * (x\<^sup>2 / 2) ^ n))"
    by (rule summable_mult) (rule summable_exp)
  show "norm ((- 1) ^ n * cdf_term x n) \<le> \<bar>x\<bar> * (inverse (fact n) * (x\<^sup>2 / 2) ^ n)" for n
    using cdf_term_abs_le [of n x] by simp
qed

lemma cdf_series_sums: "(\<lambda>n. (- 1) ^ n * cdf_term x n) sums cdf_series x"
  unfolding cdf_series_def using summable_cdf_term by (rule summable_sums)

lemma cdf_coeff_term:
  "cdf_coeff k * x ^ k = (if even k then 0 else (- 1) ^ ((k - 1) div 2) * cdf_term x ((k - 1) div 2))"
proof (cases "even k")
  case True
  then show ?thesis by (simp add: cdf_coeff_def)
next
  case False
  then have "2 * ((k - 1) div 2) + 1 = k" by presburger
  then show ?thesis using False by (simp add: cdf_coeff_def cdf_term_def)
qed

lemma cdf_powser_sums: "(\<lambda>k. cdf_coeff k * x ^ k) sums cdf_series x"
  unfolding cdf_coeff_term using cdf_series_sums by (rule sums_if')

lemma cdf_series_powser: "cdf_series = (\<lambda>x. \<Sum>k. cdf_coeff k * x ^ k)"
  using cdf_powser_sums by (simp add: fun_eq_iff sums_iff)

lemma diffs_cdf_coeff:
  "diffs cdf_coeff k * x ^ k = (if even k then (- (x\<^sup>2 / 2)) ^ (k div 2) /\<^sub>R fact (k div 2) else 0)"
proof (cases "even k")
  case True
  then obtain m where k: "k = 2 * m" by (elim evenE)
  have nz: "real (Suc (2 * m)) \<noteq> 0" by simp
  have "diffs cdf_coeff (2 * m) = real (Suc (2 * m)) * ((- 1) ^ m / (2 ^ m * fact m * real (Suc (2 * m))))"
    by (simp add: diffs_def cdf_coeff_def)
  also have "\<dots> = (- 1) ^ m / (2 ^ m * fact m)"
    using nz by (simp only: times_divide_eq_right mult.commute [of _ "real (Suc (2 * m))"])
      (rule nonzero_mult_divide_mult_cancel_left)
  finally have c: "diffs cdf_coeff (2 * m) = (- 1) ^ m / (2 ^ m * fact m)" .
  have p: "x ^ (2 * m) = (x\<^sup>2) ^ m" by (simp add: power_mult)
  have q: "(- (x\<^sup>2 / 2)) ^ m = (- 1) ^ m * (x\<^sup>2) ^ m / 2 ^ m"
    by (simp add: power_minus [of "x\<^sup>2 / 2"] power_divide)
  have rhs: "(if even (2 * m) then (- (x\<^sup>2 / 2)) ^ ((2 * m) div 2) /\<^sub>R fact ((2 * m) div 2) else 0)
      = (- (x\<^sup>2 / 2)) ^ m / fact m"
    by (simp add: inverse_eq_divide)
  have lhs: "diffs cdf_coeff (2 * m) * x ^ (2 * m) = (- 1) ^ m * (x\<^sup>2) ^ m / 2 ^ m / fact m"
    unfolding c p by simp
  show ?thesis
    unfolding k rhs lhs q ..
next
  case False
  then show ?thesis by (simp add: diffs_def cdf_coeff_def)
qed

lemma diffs_cdf_sums: "(\<lambda>k. diffs cdf_coeff k * x ^ k) sums exp (- (x\<^sup>2 / 2))"
proof -
  have z: "(\<lambda>n::nat. 0::real) sums 0" by simp
  have e: "(\<lambda>n. (- (x\<^sup>2 / 2)) ^ n /\<^sub>R fact n) sums exp (- (x\<^sup>2 / 2))"
    by (rule exp_converges)
  from sums_if [OF z e] show ?thesis
    unfolding diffs_cdf_coeff by simp
qed

lemma DERIV_cdf_series: "DERIV cdf_series x :> exp (- (x\<^sup>2 / 2))"
proof -
  have "\<And>y. summable (\<lambda>k. cdf_coeff k * y ^ k)"
    using cdf_powser_sums by (rule sums_summable)
  then have "DERIV (\<lambda>x. \<Sum>k. cdf_coeff k * x ^ k) x :> (\<Sum>k. diffs cdf_coeff k * x ^ k)"
    by (rule termdiffs_strong_converges_everywhere)
  moreover have "(\<Sum>k. diffs cdf_coeff k * x ^ k) = exp (- (x\<^sup>2 / 2))"
    using diffs_cdf_sums by (simp add: sums_iff)
  ultimately show ?thesis by (simp add: cdf_series_powser)
qed

lemma DERIV_std_normal_cdf:
  "DERIV std_normal_cdf x :> exp (- (x\<^sup>2 / 2)) / sqrt (2 * pi)"
proof -
  have "DERIV (\<lambda>x. 1 / 2 + cdf_series x / sqrt (2 * pi)) x
          :> 0 + exp (- (x\<^sup>2 / 2)) / sqrt (2 * pi)"
    by (intro DERIV_add DERIV_const DERIV_cdivide DERIV_cdf_series)
  then show ?thesis by (simp add: std_normal_cdf_def [abs_def])
qed

lemma std_normal_cdf_zero: "std_normal_cdf 0 = 1 / 2"
  by (simp add: std_normal_cdf_def cdf_series_def cdf_term_def)

lemma std_normal_cdf_strict_mono:
  assumes "a < b"
  shows "std_normal_cdf a < std_normal_cdf b"
proof (rule DERIV_pos_imp_increasing [OF assms])
  fix x
  have "0 < exp (- (x\<^sup>2 / 2)) / sqrt (2 * pi)" by simp
  with DERIV_std_normal_cdf [of x]
  show "\<exists>y. DERIV std_normal_cdf x :> y \<and> 0 < y" by blast
qed

lemma std_normal_cdf_inj: "std_normal_cdf a = std_normal_cdf b \<Longrightarrow> a = b"
  using std_normal_cdf_strict_mono [of a b] std_normal_cdf_strict_mono [of b a]
  by (cases a b rule: linorder_cases) auto

lemma isCont_std_normal_cdf: "isCont std_normal_cdf x"
  using DERIV_std_normal_cdf by (rule DERIV_isCont)

lemma std_normal_inv_cdf_between:
  assumes "std_normal_cdf lo < p" "p < std_normal_cdf hi"
  shows "lo < std_normal_inv_cdf p \<and> std_normal_inv_cdf p < hi
         \<and> std_normal_cdf (std_normal_inv_cdf p) = p"
proof -
  have lh: "lo < hi"
  proof (rule ccontr)
    assume "\<not> lo < hi"
    then have "hi \<le> lo" by simp
    then have "std_normal_cdf hi \<le> std_normal_cdf lo"
      using std_normal_cdf_strict_mono [of hi lo] by (cases "hi = lo") auto
    with assms show False by simp
  qed
  have "\<exists>x\<ge>lo. x \<le> hi \<and> std_normal_cdf x = p"
    using lh assms by (intro IVT) (auto simp: isCont_std_normal_cdf)
  then obtain x where x: "lo \<le> x" "x \<le> hi" "std_normal_cdf x = p" by blast
  have "x \<noteq> lo" "x \<noteq> hi" using x(3) assms by auto
  with x have b: "lo < x" "x < hi" by auto
  have "std_normal_inv_cdf p = x"
    unfolding std_normal_inv_cdf_def
    by (rule the_equality) (use x(3) std_normal_cdf_inj in auto)
  with b x(3) show ?thesis by simp
qed

text \<open>Bounds of the alternating series by its partial sums.\<close>

lemma cdf_term_nonneg: "0 \<le> x \<Longrightarrow> 0 \<le> cdf_term x n"
  by (simp add: cdf_term_def)

lemma cdf_term_Suc:
  "cdf_term x (Suc n) = cdf_term x n * (x\<^sup>2 * real (2 * n + 1) / (2 * real (n + 1) * real (2 * n + 3)))"
proof -
  have "x ^ (2 * Suc n + 1) * ((2 ^ n * fact n * real (2 * n + 1)) * (2 * real (n + 1) * real (2 * n + 3)))
      = (x ^ (2 * n + 1) * (x\<^sup>2 * real (2 * n + 1))) * (2 ^ Suc n * fact (Suc n) * real (2 * Suc n + 1))"
    by (simp add: power2_eq_square algebra_simps)
  then show ?thesis
    unfolding cdf_term_def times_divide_times_eq
    by (subst frac_eq_eq) simp_all
qed

lemma cdf_term_decreasing:
  assumes "0 \<le> x" "x\<^sup>2 \<le> 2 * real (n + 1)"
  shows "cdf_term x (Suc n) \<le> cdf_term x n"
proof -
  have "x\<^sup>2 * real (2 * n + 1) \<le> (2 * real (n + 1)) * real (2 * n + 3)"
    using assms(2) by (intro mult_mono) auto
  then have "x\<^sup>2 * real (2 * n + 1) / (2 * real (n + 1) * real (2 * n + 3)) \<le> 1"
    by (simp add: divide_le_eq)
  then have "cdf_term x n * (x\<^sup>2 * real (2 * n + 1) / (2 * real (n + 1) * real (2 * n + 3)))
        \<le> cdf_term x n * 1"
    using cdf_term_nonneg [OF assms(1)] by (intro mult_left_mono)
  then show ?thesis unfolding cdf_term_Suc by simp
qed

lemma cdf_term_tendsto_0: "cdf_term x \<longlonglongrightarrow> 0"
proof -
  have "(\<lambda>n. (- 1) ^ n * cdf_term x n) \<longlonglongrightarrow> 0"
    using summable_cdf_term by (rule summable_LIMSEQ_zero)
  then have "(\<lambda>n. \<bar>(- 1) ^ n * cdf_term x n\<bar>) \<longlonglongrightarrow> 0"
    by (simp add: tendsto_rabs_zero_iff)
  then have "(\<lambda>n. \<bar>cdf_term x n\<bar>) \<longlonglongrightarrow> 0"
    by (simp add: abs_mult power_abs)
  then show ?thesis by (simp add: tendsto_rabs_zero_iff)
qed

lemma cdf_series_bounds:
  assumes x: "0 \<le> x" and K: "x\<^sup>2 \<le> 2 * real (K + 1)" and eK: "even K"
  shows "(\<Sum>n<K + 2 * m. (- 1) ^ n * cdf_term x n) \<le> cdf_series x"
    and "cdf_series x \<le> (\<Sum>n<K + 2 * m + 1. (- 1) ^ n * cdf_term x n)"
proof -
  let ?a = "\<lambda>n. cdf_term x (n + K)"
  have a0: "?a \<longlonglongrightarrow> 0"
    using cdf_term_tendsto_0 [of x] by (rule LIMSEQ_ignore_initial_segment)
  have ap: "0 \<le> ?a n" for n using x by (rule cdf_term_nonneg)
  have am: "?a (Suc n) \<le> ?a n" for n
  proof -
    have "x\<^sup>2 \<le> 2 * real (n + K + 1)" using K by simp
    from cdf_term_decreasing [OF x this] show ?thesis by simp
  qed
  have sh: "(- 1) ^ (n + K) * cdf_term x (n + K) = (- 1) ^ n * ?a n" for n
    using eK by (simp add: power_add)
  have split: "cdf_series x = (\<Sum>n. (- 1) ^ n * ?a n) + (\<Sum>n<K. (- 1) ^ n * cdf_term x n)"
    unfolding cdf_series_def
    using suminf_split_initial_segment [OF summable_cdf_term, of x K] by (simp only: sh)
  have fin: "(\<Sum>n<K + j. (- 1) ^ n * cdf_term x n)
        = (\<Sum>n<j. (- 1) ^ n * ?a n) + (\<Sum>n<K. (- 1) ^ n * cdf_term x n)" for j
  proof -
    let ?f = "\<lambda>n. (- 1) ^ n * cdf_term x n"
    have "(\<Sum>n<K + j. ?f n) = (\<Sum>n = 0..<K. ?f n) + (\<Sum>n = K..<K + j. ?f n)"
      by (simp add: lessThan_atLeast0 sum.atLeastLessThan_concat)
    moreover have "(\<Sum>n = K..<K + j. ?f n) = (\<Sum>n = 0..<j. ?f (n + K))"
      using sum.shift_bounds_nat_ivl [of ?f 0 K j] by (simp add: add.commute)
    ultimately have "(\<Sum>n<K + j. ?f n) = (\<Sum>n<K. ?f n) + (\<Sum>n<j. ?f (n + K))"
      by (simp add: lessThan_atLeast0)
    then show ?thesis by (simp only: sh add.commute)
  qed
  show "(\<Sum>n<K + 2 * m. (- 1) ^ n * cdf_term x n) \<le> cdf_series x"
    unfolding split fin using summable_Leibniz'(2) [OF a0 ap am, of m] by simp
  show "cdf_series x \<le> (\<Sum>n<K + 2 * m + 1. (- 1) ^ n * cdf_term x n)"
    unfolding split using fin [of "2 * m + 1"] summable_Leibniz'(4) [OF a0 ap am, of m]
    by (simp add: add.assoc)
qed

subsection \<open>Numerical bounds\<close>

lemma arctan_series_bounds:
  assumes "0 \<le> x" "x \<le> 1"
  shows "(\<Sum>k<2 * n. (- 1) ^ k * (1 / real (k * 2 + 1) * x ^ (k * 2 + 1))) \<le> arctan x"
    and "arctan x \<le> (\<Sum>k<2 * n + 1. (- 1) ^ k * (1 / real (k * 2 + 1) * x ^ (k * 2 + 1)))"
proof -
  let ?a = "\<lambda>k. 1 / real (k * 2 + 1) * x ^ (k * 2 + 1)"
  have ax: "\<bar>x\<bar> \<le> 1" using assms by simp
  have a0: "?a \<longlonglongrightarrow> 0" using ax by (rule zeroseq_arctan_series)
  have ap: "0 \<le> ?a k" for k using assms by simp
  have am: "?a (Suc k) \<le> ?a k" for k
  proof -
    have "x ^ (Suc k * 2 + 1) \<le> x ^ (k * 2 + 1)"
      using assms by (intro power_decreasing) auto
    moreover have "1 / real (Suc k * 2 + 1) \<le> 1 / real (k * 2 + 1)"
      by (intro divide_left_mono) auto
    ultimately show ?thesis
      using assms by (intro mult_mono) auto
  qed
  have s: "arctan x = (\<Sum>k. (- 1) ^ k * ?a k)" using ax by (rule arctan_series)
  show "(\<Sum>k<2 * n. (- 1) ^ k * ?a k) \<le> arctan x"
    unfolding s by (rule summable_Leibniz'(2) [OF a0 ap am])
  show "arctan x \<le> (\<Sum>k<2 * n + 1. (- 1) ^ k * ?a k)"
    unfolding s by (rule summable_Leibniz'(4) [OF a0 ap am])
qed

lemma pi_bounds: "31415916 / 10000000 < pi \<and> pi < 31415927 / 10000000"
proof -
  have l5: "(\<Sum>k<2 * 2. (- 1) ^ k * (1 / real (k * 2 + 1) * (1 / 5) ^ (k * 2 + 1))) \<le> arctan (1 / 5)"
    by (rule arctan_series_bounds) simp_all
  have u5: "arctan (1 / 5) \<le> (\<Sum>k<2 * 2 + 1. (- 1) ^ k * (1 / real (k * 2 + 1) * (1 / 5) ^ (k * 2 + 1)))"
    by (rule arctan_series_bounds) simp_all
  have l239: "(\<Sum>k<2 * 1. (- 1) ^ k * (1 / real (k * 2 + 1) * (1 / 239) ^ (k * 2 + 1))) \<le> arctan (1 / 239)"
    by (rule arctan_series_bounds) simp_all
  have u239: "arctan (1 / 239) \<le> (\<Sum>k<2 * 0 + 1. (- 1) ^ k * (1 / real (k * 2 + 1) * (1 / 239) ^ (k * 2 + 1)))"
    by (rule arctan_series_bounds) simp_all
  have l5': "(1 / 5 - 1 / 375 + 1 / 15625 - 1 / 546875 :: real) \<le> arctan (1 / 5)"
    using l5 by (simp add: lessThan_nat_numeral lessThan_Suc power_divide)
  have u5': "arctan (1 / 5) \<le> (1 / 5 - 1 / 375 + 1 / 15625 - 1 / 546875 + 1 / 17578125 :: real)"
    using u5 by (simp add: lessThan_nat_numeral lessThan_Suc power_divide)
  have l239': "(1 / 239 - 1 / 40955757 :: real) \<le> arctan (1 / 239)"
    using l239 by (simp add: lessThan_nat_numeral lessThan_Suc power_divide)
  have u239': "arctan (1 / 239) \<le> (1 / 239 :: real)"
    using u239 by (simp add: lessThan_nat_numeral lessThan_Suc power_divide)
  have m: "pi = 16 * arctan (1 / 5) - 4 * arctan (1 / 239)"
    using machin by simp
  show ?thesis
    unfolding m using l5' u5' l239' u239' by simp
qed

lemma sqrt_two_pi_bounds: "25066278 / 10000000 < sqrt (2 * pi) \<and> sqrt (2 * pi) < 25066284 / 10000000"
proof -
  have "(25066278 / 10000000)\<^sup>2 < 2 * pi"
    using pi_bounds by (simp add: power2_eq_square)
  then have a: "25066278 / 10000000 < sqrt (2 * pi)"
    by (rule real_less_rsqrt)
  have "2 * pi < (25066284 / 10000000)\<^sup>2"
    using pi_bounds by (simp add: power2_eq_square)
  then have b: "sqrt (2 * pi) < 25066284 / 10000000"
    by (intro real_less_lsqrt) simp_all
  from a b show ?thesis ..
qed

lemma cdf_term_step:
  assumes "l \<le> cdf_term x n \<and> cdf_term x n \<le> u"
    and "m = Suc n \<and> 0 \<le> l \<and> 0 \<le> x
         \<and> l' \<le> l * (x\<^sup>2 * real (2 * n + 1) / (2 * real (n + 1) * real (2 * n + 3)))
         \<and> u * (x\<^sup>2 * real (2 * n + 1) / (2 * real (n + 1) * real (2 * n + 3))) \<le> u'"
  shows "l' \<le> cdf_term x m \<and> cdf_term x m \<le> u'"
proof -
  let ?r = "x\<^sup>2 * real (2 * n + 1) / (2 * real (n + 1) * real (2 * n + 3))"
  have r: "0 \<le> ?r" by simp
  have m: "cdf_term x m = cdf_term x n * ?r" using assms(2) cdf_term_Suc by simp
  have "l * ?r \<le> cdf_term x n * ?r" using assms(1) r by (intro mult_right_mono) auto
  moreover have "cdf_term x n * ?r \<le> u * ?r" using assms(1) r by (intro mult_right_mono) auto
  ultimately show ?thesis using assms(2) unfolding m by linarith
qed

lemma cdf_lo_975_terms:
  "(4899 / 2500 \<le> cdf_term (4899 / 2500) 0 \<and> cdf_term (4899 / 2500) 0 \<le> 4899 / 2500)
   \<and> (39192328233 / 31250000000 \<le> cdf_term (4899 / 2500) 1 \<and> cdf_term (4899 / 2500) 1 \<le> 39192328233 / 31250000000)
   \<and> (722399044031 / 1000000000000 \<le> cdf_term (4899 / 2500) 2 \<and> cdf_term (4899 / 2500) 2 \<le> 11287485063 / 15625000000)
   \<and> (330242328741 / 1000000000000 \<le> cdf_term (4899 / 2500) 3 \<and> cdf_term (4899 / 2500) 3 \<le> 330242328743 / 1000000000000)
   \<and> (61645750977 / 500000000000 \<le> cdf_term (4899 / 2500) 4 \<and> cdf_term (4899 / 2500) 4 \<le> 30822875489 / 250000000000)
   \<and> (38736272663 / 1000000000000 \<le> cdf_term (4899 / 2500) 5 \<and> cdf_term (4899 / 2500) 5 \<le> 7747254533 / 200000000000)
   \<and> (10488678593 / 1000000000000 \<le> cdf_term (4899 / 2500) 6 \<and> cdf_term (4899 / 2500) 6 \<le> 2097735719 / 200000000000)
   \<and> (2493329621 / 1000000000000 \<le> cdf_term (4899 / 2500) 7 \<and> cdf_term (4899 / 2500) 7 \<le> 1246664811 / 500000000000)
   \<and> (105600727 / 200000000000 \<le> cdf_term (4899 / 2500) 8 \<and> cdf_term (4899 / 2500) 8 \<le> 528003637 / 1000000000000)
   \<and> (20156939 / 200000000000 \<le> cdf_term (4899 / 2500) 9 \<and> cdf_term (4899 / 2500) 9 \<le> 100784697 / 1000000000000)
   \<and> (17507887 / 1000000000000 \<le> cdf_term (4899 / 2500) 10 \<and> cdf_term (4899 / 2500) 10 \<le> 17507889 / 1000000000000)
   \<and> (2790213 / 1000000000000 \<le> cdf_term (4899 / 2500) 11 \<and> cdf_term (4899 / 2500) 11 \<le> 1395107 / 500000000000)
   \<and> (205361 / 500000000000 \<le> cdf_term (4899 / 2500) 12 \<and> cdf_term (4899 / 2500) 12 \<le> 410723 / 1000000000000)
   \<and> (56167 / 1000000000000 \<le> cdf_term (4899 / 2500) 13 \<and> cdf_term (4899 / 2500) 13 \<le> 7021 / 125000000000)
   \<and> (7171 / 1000000000000 \<le> cdf_term (4899 / 2500) 14 \<and> cdf_term (4899 / 2500) 14 \<le> 1793 / 250000000000)
   \<and> (429 / 500000000000 \<le> cdf_term (4899 / 2500) 15 \<and> cdf_term (4899 / 2500) 15 \<le> 859 / 1000000000000)
   \<and> (3 / 31250000000 \<le> cdf_term (4899 / 2500) 16 \<and> cdf_term (4899 / 2500) 16 \<le> 97 / 1000000000000)"
proof -
  have t0: "4899 / 2500 \<le> cdf_term (4899 / 2500) 0 \<and> cdf_term (4899 / 2500) 0 \<le> 4899 / 2500"
    by (simp add: cdf_term_def)
  have t1: "39192328233 / 31250000000 \<le> cdf_term (4899 / 2500) 1 \<and> cdf_term (4899 / 2500) 1 \<le> 39192328233 / 31250000000"
    using cdf_term_step [OF t0, of 1 "39192328233 / 31250000000" "39192328233 / 31250000000"] by (simp add: power2_eq_square)
  have t2: "722399044031 / 1000000000000 \<le> cdf_term (4899 / 2500) 2 \<and> cdf_term (4899 / 2500) 2 \<le> 11287485063 / 15625000000"
    using cdf_term_step [OF t1, of 2 "722399044031 / 1000000000000" "11287485063 / 15625000000"] by (simp add: power2_eq_square)
  have t3: "330242328741 / 1000000000000 \<le> cdf_term (4899 / 2500) 3 \<and> cdf_term (4899 / 2500) 3 \<le> 330242328743 / 1000000000000"
    using cdf_term_step [OF t2, of 3 "330242328741 / 1000000000000" "330242328743 / 1000000000000"] by (simp add: power2_eq_square)
  have t4: "61645750977 / 500000000000 \<le> cdf_term (4899 / 2500) 4 \<and> cdf_term (4899 / 2500) 4 \<le> 30822875489 / 250000000000"
    using cdf_term_step [OF t3, of 4 "61645750977 / 500000000000" "30822875489 / 250000000000"] by (simp add: power2_eq_square)
  have t5: "38736272663 / 1000000000000 \<le> cdf_term (4899 / 2500) 5 \<and> cdf_term (4899 / 2500) 5 \<le> 7747254533 / 200000000000"
    using cdf_term_step [OF t4, of 5 "38736272663 / 1000000000000" "7747254533 / 200000000000"] by (simp add: power2_eq_square)
  have t6: "10488678593 / 1000000000000 \<le> cdf_term (4899 / 2500) 6 \<and> cdf_term (4899 / 2500) 6 \<le> 2097735719 / 200000000000"
    using cdf_term_step [OF t5, of 6 "10488678593 / 1000000000000" "2097735719 / 200000000000"] by (simp add: power2_eq_square)
  have t7: "2493329621 / 1000000000000 \<le> cdf_term (4899 / 2500) 7 \<and> cdf_term (4899 / 2500) 7 \<le> 1246664811 / 500000000000"
    using cdf_term_step [OF t6, of 7 "2493329621 / 1000000000000" "1246664811 / 500000000000"] by (simp add: power2_eq_square)
  have t8: "105600727 / 200000000000 \<le> cdf_term (4899 / 2500) 8 \<and> cdf_term (4899 / 2500) 8 \<le> 528003637 / 1000000000000"
    using cdf_term_step [OF t7, of 8 "105600727 / 200000000000" "528003637 / 1000000000000"] by (simp add: power2_eq_square)
  have t9: "20156939 / 200000000000 \<le> cdf_term (4899 / 2500) 9 \<and> cdf_term (4899 / 2500) 9 \<le> 100784697 / 1000000000000"
    using cdf_term_step [OF t8, of 9 "20156939 / 200000000000" "100784697 / 1000000000000"] by (simp add: power2_eq_square)
  have t10: "17507887 / 1000000000000 \<le> cdf_term (4899 / 2500) 10 \<and> cdf_term (4899 / 2500) 10 \<le> 17507889 / 1000000000000"
    using cdf_term_step [OF t9, of 10 "17507887 / 1000000000000" "17507889 / 1000000000000"] by (simp add: power2_eq_square)
  have t11: "2790213 / 1000000000000 \<le> cdf_term (4899 / 2500) 11 \<and> cdf_term (4899 / 2500) 11 \<le> 1395107 / 500000000000"
    using cdf_term_step [OF t10, of 11 "2790213 / 1000000000000" "1395107 / 500000000000"] by (simp add: power2_eq_square)
  have t12: "205361 / 500000000000 \<le> cdf_term (4899 / 2500) 12 \<and> cdf_term (4899 / 2500) 12 \<le> 410723 / 1000000000000"
    using cdf_term_step [OF t11, of 12 "205361 / 500000000000" "410723 / 1000000000000"] by (simp add: power2_eq_square)
  have t13: "56167 / 1000000000000 \<le> cdf_term (4899 / 2500) 13 \<and> cdf_term (4899 / 2500) 13 \<le> 7021 / 125000000000"
    using cdf_term_step [OF t12, of 13 "56167 / 1000000000000" "7021 / 125000000000"] by (simp add: power2_eq_square)
  have t14: "7171 / 1000000000000 \<le> cdf_term (4899 / 2500) 14 \<and> cdf_term (4899 / 2500) 14 \<le> 1793 / 250000000000"
    using cdf_term_step [OF t13, of 14 "7171 / 1000000000000" "1793 / 250000000000"] by (simp add: power2_eq_square)
  have t15: "429 / 500000000000 \<le> cdf_term (4899 / 2500) 15 \<and> cdf_term (4899 / 2500) 15 \<le> 859 / 1000000000000"
    using cdf_term_step [OF t14, of 15 "429 / 500000000000" "859 / 1000000000000"] by (simp add: power2_eq_square)
  have t16: "3 / 31250000000 \<le> cdf_term (4899 / 2500) 16 \<and> cdf_term (4899 / 2500) 16 \<le> 97 / 1000000000000"
    using cdf_term_step [OF t15, of 16 "3 / 31250000000" "97 / 1000000000000"] by (simp add: power2_eq_square)
  show ?thesis
    using t0 t1 t2 t3 t4 t5 t6 t7 t8 t9 t10 t11 t12 t13 t14 t15 t16 by blast
qed

lemma cdf_lo_975_sum: "(\<Sum>n<17. (- 1) ^ n * cdf_term (4899 / 2500) n) < 238129641 / 200000000"
  using cdf_lo_975_terms
  by (simp add: lessThan_nat_numeral lessThan_Suc)

lemma cdf_hi_975_terms:
  "(19603 / 10000 \<le> cdf_term (19603 / 10000) 0 \<and> cdf_term (19603 / 10000) 0 \<le> 19603 / 10000)
   \<and> (1255498994871 / 1000000000000 \<le> cdf_term (19603 / 10000) 1 \<and> cdf_term (19603 / 10000) 1 \<le> 156937374359 / 125000000000)
   \<and> (11307659809 / 15625000000 \<le> cdf_term (19603 / 10000) 2 \<and> cdf_term (19603 / 10000) 2 \<le> 723690227777 / 1000000000000)
   \<and> (66213797711 / 200000000000 \<le> cdf_term (19603 / 10000) 3 \<and> cdf_term (19603 / 10000) 3 \<le> 82767247139 / 250000000000)
   \<and> (61844221899 / 500000000000 \<le> cdf_term (19603 / 10000) 4 \<and> cdf_term (19603 / 10000) 4 \<le> 618442219 / 5000000000)
   \<and> (3888875409 / 100000000000 \<le> cdf_term (19603 / 10000) 5 \<and> cdf_term (19603 / 10000) 5 \<le> 38888754091 / 1000000000000)
   \<and> (10537490501 / 1000000000000 \<le> cdf_term (19603 / 10000) 6 \<and> cdf_term (19603 / 10000) 6 \<le> 5268745251 / 500000000000)
   \<and> (2506722929 / 1000000000000 \<le> cdf_term (19603 / 10000) 7 \<and> cdf_term (19603 / 10000) 7 \<le> 250672293 / 100000000000)
   \<and> (265609603 / 500000000000 \<le> cdf_term (19603 / 10000) 8 \<and> cdf_term (19603 / 10000) 8 \<le> 531219207 / 1000000000000)
   \<and> (20294187 / 200000000000 \<le> cdf_term (19603 / 10000) 9 \<and> cdf_term (19603 / 10000) 9 \<le> 12683867 / 125000000000)
   \<and> (8819847 / 500000000000 \<le> cdf_term (19603 / 10000) 10 \<and> cdf_term (19603 / 10000) 10 \<le> 3527939 / 200000000000)
   \<and> (2813227 / 1000000000000 \<le> cdf_term (19603 / 10000) 11 \<and> cdf_term (19603 / 10000) 11 \<le> 703307 / 250000000000)
   \<and> (207203 / 500000000000 \<le> cdf_term (19603 / 10000) 12 \<and> cdf_term (19603 / 10000) 12 \<le> 414407 / 1000000000000)
   \<and> (56711 / 1000000000000 \<le> cdf_term (19603 / 10000) 13 \<and> cdf_term (19603 / 10000) 13 \<le> 56713 / 1000000000000)
   \<and> (3623 / 500000000000 \<le> cdf_term (19603 / 10000) 14 \<and> cdf_term (19603 / 10000) 14 \<le> 7247 / 1000000000000)
   \<and> (217 / 250000000000 \<le> cdf_term (19603 / 10000) 15 \<and> cdf_term (19603 / 10000) 15 \<le> 869 / 1000000000000)"
proof -
  have t0: "19603 / 10000 \<le> cdf_term (19603 / 10000) 0 \<and> cdf_term (19603 / 10000) 0 \<le> 19603 / 10000"
    by (simp add: cdf_term_def)
  have t1: "1255498994871 / 1000000000000 \<le> cdf_term (19603 / 10000) 1 \<and> cdf_term (19603 / 10000) 1 \<le> 156937374359 / 125000000000"
    using cdf_term_step [OF t0, of 1 "1255498994871 / 1000000000000" "156937374359 / 125000000000"] by (simp add: power2_eq_square)
  have t2: "11307659809 / 15625000000 \<le> cdf_term (19603 / 10000) 2 \<and> cdf_term (19603 / 10000) 2 \<le> 723690227777 / 1000000000000"
    using cdf_term_step [OF t1, of 2 "11307659809 / 15625000000" "723690227777 / 1000000000000"] by (simp add: power2_eq_square)
  have t3: "66213797711 / 200000000000 \<le> cdf_term (19603 / 10000) 3 \<and> cdf_term (19603 / 10000) 3 \<le> 82767247139 / 250000000000"
    using cdf_term_step [OF t2, of 3 "66213797711 / 200000000000" "82767247139 / 250000000000"] by (simp add: power2_eq_square)
  have t4: "61844221899 / 500000000000 \<le> cdf_term (19603 / 10000) 4 \<and> cdf_term (19603 / 10000) 4 \<le> 618442219 / 5000000000"
    using cdf_term_step [OF t3, of 4 "61844221899 / 500000000000" "618442219 / 5000000000"] by (simp add: power2_eq_square)
  have t5: "3888875409 / 100000000000 \<le> cdf_term (19603 / 10000) 5 \<and> cdf_term (19603 / 10000) 5 \<le> 38888754091 / 1000000000000"
    using cdf_term_step [OF t4, of 5 "3888875409 / 100000000000" "38888754091 / 1000000000000"] by (simp add: power2_eq_square)
  have t6: "10537490501 / 1000000000000 \<le> cdf_term (19603 / 10000) 6 \<and> cdf_term (19603 / 10000) 6 \<le> 5268745251 / 500000000000"
    using cdf_term_step [OF t5, of 6 "10537490501 / 1000000000000" "5268745251 / 500000000000"] by (simp add: power2_eq_square)
  have t7: "2506722929 / 1000000000000 \<le> cdf_term (19603 / 10000) 7 \<and> cdf_term (19603 / 10000) 7 \<le> 250672293 / 100000000000"
    using cdf_term_step [OF t6, of 7 "2506722929 / 1000000000000" "250672293 / 100000000000"] by (simp add: power2_eq_square)
  have t8: "265609603 / 500000000000 \<le> cdf_term (19603 / 10000) 8 \<and> cdf_term (19603 / 10000) 8 \<le> 531219207 / 1000000000000"
    using cdf_term_step [OF t7, of 8 "265609603 / 500000000000" "531219207 / 1000000000000"] by (simp add: power2_eq_square)
  have t9: "20294187 / 200000000000 \<le> cdf_term (19603 / 10000) 9 \<and> cdf_term (19603 / 10000) 9 \<le> 12683867 / 125000000000"
    using cdf_term_step [OF t8, of 9 "20294187 / 200000000000" "12683867 / 125000000000"] by (simp add: power2_eq_square)
  have t10: "8819847 / 500000000000 \<le> cdf_term (19603 / 10000) 10 \<and> cdf_term (19603 / 10000) 10 \<le> 3527939 / 200000000000"
    using cdf_term_step [OF t9, of 10 "8819847 / 500000000000" "3527939 / 200000000000"] by (simp add: power2_eq_square)
  have t11: "2813227 / 1000000000000 \<le> cdf_term (19603 / 10000) 11 \<and> cdf_term (19603 / 10000) 11 \<le> 703307 / 250000000000"
    using cdf_term_step [OF t10, of 11 "2813227 / 1000000000000" "703307 / 250000000000"] by (simp add: power2_eq_square)
  have t12: "207203 / 500000000000 \<le> cdf_term (19603 / 10000) 12 \<and> cdf_term (19603 / 10000) 12 \<le> 414407 / 1000000000000"
    using cdf_term_step [OF t11, of 12 "207203 / 500000000000" "414407 / 1000000000000"] by (simp add: power2_eq_square)
  have t13: "56711 / 1000000000000 \<le> cdf_term (19603 / 10000) 13 \<and> cdf_term (19603 / 10000) 13 \<le> 56713 / 1000000000000"
    using cdf_term_step [OF t12, of 13 "56711 / 1000000000000" "56713 / 1000000000000"] by (simp add: power2_eq_square)
  have t14: "3623 / 500000000000 \<le> cdf_term (19603 / 10000) 14 \<and> cdf_term (19603 / 10000) 14 \<le> 7247 / 1000000000000"
    using cdf_term_step [OF t13, of 14 "3623 / 500000000000" "7247 / 1000000000000"] by (simp add: power2_eq_square)
  have t15: "217 / 250000000000 \<le> cdf_term (19603 / 10000) 15 \<and> cdf_term (19603 / 10000) 15 \<le> 869 / 1000000000000"
    using cdf_term_step [OF t14, of 15 "217 / 250000000000" "869 / 1000000000000"] by (simp add: power2_eq_square)
  show ?thesis
    using t0 t1 t2 t3 t4 t5 t6 t7 t8 t9 t10 t11 t12 t13 t14 t15 by blast
qed

lemma cdf_hi_975_sum: "119064849 / 100000000 < (\<Sum>n<16. (- 1) ^ n * cdf_term (19603 / 10000) n)"
  using cdf_hi_975_terms
  by (simp add: lessThan_nat_numeral lessThan_Suc)

lemma std_normal_cdf_less:
  assumes "0 \<le> x" "x\<^sup>2 \<le> 10"
    and "(\<Sum>n<17. (- 1) ^ n * cdf_term x n) < (p - 1 / 2) * (25066278 / 10000000)"
    and "1 / 2 \<le> p"
  shows "std_normal_cdf x < p"
proof -
  have "cdf_series x \<le> (\<Sum>n<4 + 2 * 6 + 1. (- 1) ^ n * cdf_term x n)"
    using assms(1,2) by (intro cdf_series_bounds) simp_all
  then have "cdf_series x < (p - 1 / 2) * (25066278 / 10000000)"
    using assms(3) by simp
  also have "\<dots> \<le> (p - 1 / 2) * sqrt (2 * pi)"
    using sqrt_two_pi_bounds assms(4) by (intro mult_left_mono) auto
  finally have "cdf_series x / sqrt (2 * pi) < p - 1 / 2"
    by (simp add: divide_less_eq)
  then show ?thesis by (simp add: std_normal_cdf_def)
qed

lemma std_normal_cdf_greater:
  assumes "0 \<le> x" "x\<^sup>2 \<le> 10"
    and "(p - 1 / 2) * (25066284 / 10000000) < (\<Sum>n<16. (- 1) ^ n * cdf_term x n)"
    and "1 / 2 \<le> p"
  shows "p < std_normal_cdf x"
proof -
  have "(\<Sum>n<4 + 2 * 6. (- 1) ^ n * cdf_term x n) \<le> cdf_series x"
    using assms(1,2) by (intro cdf_series_bounds) simp_all
  then have "(p - 1 / 2) * (25066284 / 10000000) < cdf_series x"
    using assms(3) by simp
  moreover have "(p - 1 / 2) * sqrt (2 * pi) \<le> (p - 1 / 2) * (25066284 / 10000000)"
    using sqrt_two_pi_bounds assms(4) by (intro mult_left_mono) auto
  ultimately have "(p - 1 / 2) * sqrt (2 * pi) < cdf_series x" by linarith
  then have "p - 1 / 2 < cdf_series x / sqrt (2 * pi)"
    by (simp add: less_divide_eq)
  then show ?thesis by (simp add: std_normal_cdf_def)
qed

lemma std_normal_inv_cdf_975:
  "19596 / 10000 < std_normal_inv_cdf (975 / 1000)
   \<and> std_normal_inv_cdf (975 / 1000) < 19603 / 10000
   \<and> std_normal_cdf (std_normal_inv_cdf (975 / 1000)) = 975 / 1000"
proof (rule std_normal_inv_cdf_between)
  show "std_normal_cdf (19596 / 10000) < 975 / 1000"
    using cdf_lo_975_sum by (intro std_normal_cdf_less) (simp_all add: power2_eq_square)
  show "975 / 1000 < std_normal_cdf (19603 / 10000)"
    using cdf_hi_975_sum by (intro std_normal_cdf_greater) (simp_all add: power2_eq_square)
qed

subsection \<open>The z-score and the example of the specification\<close>

lemma z_score_95:
  "z_score std_normal_inv_cdf (95 / 100) = Inr (std_normal_inv_cdf (975 / 1000))"
  by (simp add: z_score_def)

lemma ceiling_boxes:
  fixes q :: real
  assumes "19596 / 10000 < q" "q < 19603 / 10000"
  shows "\<lceil>q\<^sup>2 * 100\<rceil> = 385" and "\<lceil>q\<^sup>2 * 100 / 2\<rceil> = 193"
proof -
  have q0: "0 \<le> q" using assms by simp
  have lo: "(19596 / 10000)\<^sup>2 < q\<^sup>2"
    using assms by (intro power_strict_mono) simp_all
  have hi: "q\<^sup>2 < (19603 / 10000)\<^sup>2"
    using assms q0 by (intro power_strict_mono) simp_all
  have lo': "384 < q\<^sup>2 * 100" using lo by (simp add: power2_eq_square)
  have hi': "q\<^sup>2 * 100 < 385" using hi by (simp add: power2_eq_square)
  show "\<lceil>q\<^sup>2 * 100\<rceil> = 385"
    using lo' hi' by (intro ceiling_unique) simp_all
  show "\<lceil>q\<^sup>2 * 100 / 2\<rceil> = 193"
    using lo' hi' by (intro ceiling_unique) simp_all
qed


lemma main_header_one_zero:
  "main py_float std_normal_inv_cdf ''header:1'' (95 / 100) (5 / 100) (1 / 2) (Some 0)
   = Inr \<lparr>confidence_used = 95 / 100, z_used = std_normal_inv_cdf (975 / 1000),
          boxes_needed = (std_normal_inv_cdf (975 / 1000))\<^sup>2 * 100,
          per_class = [(''header'', 385)], recommended = 385, current_margins = None\<rparr>"
proof -
  let ?q = "std_normal_inv_cdf (975 / 1000)"
  have b: "19596 / 10000 < ?q" "?q < 19603 / 10000" using std_normal_inv_cdf_975 by auto
  note c = ceiling_boxes(1) [OF b]
  have rb: "required_boxes ?q (5 / 100) (1 / 2) = Inr (?q\<^sup>2 * 100)"
    by (simp add: required_boxes_def power_divide)
  have il: "images_loop (?q\<^sup>2 * 100) [(''header'', 1)] [] = Inr [(''header'', 385)]"
    using c by simp
  have mv: "max_values [(''header'', 385)] = Inr 385"
    by (simp add: max_values_def)
  have n: "normalize_confidence (95 / 100) = Inr (95 / 100)"
    by (simp add: normalize_confidence_def)
  have mr: "margin_report ?q (1 / 2) (Some 0) [(''header'', 1)] = Inr None"
    by (simp add: margin_report_def)
  show ?thesis
    by (simp only: main_def parse_header_one n z_score_95 rb il mv mr sum.case)
qed

subsection \<open>Pairs with a value that is not positive\<close>









section \<open>The claims\<close>




text \<open>
  C3, as stated, fails at confidence \<open>1\<close>: the test of \<^verbatim>\<open>main\<close> is \<^verbatim>\<open>confidence > 1\<close>, so
  \<open>1\<close> is not divided by 100; it reaches \<open>z_score\<close> unchanged and is rejected there.
\<close>

theorem confidence_one_counterexample:
  "normalize_confidence 1 = Inr 1
   \<and> main py_float std_normal_inv_cdf ''header:1'' 1 (5 / 100) (1 / 2) None
       = Inl ConfidenceRange"
  by (simp add: main_def parse_header_one normalize_confidence_def z_score_def)

text \<open>
  C3, amended. During estimation every confidence value strictly above \<open>1\<close> is read as a
  percentage and divided by 100 before the z-score is computed, every value up to \<open>1\<close> is
  used as it is, and the run fails with "confidence percentage must be less than 100"
  exactly when the class specification parses and the original confidence is at least
  \<open>100\<close>. Confidence \<open>1\<close> is not normalised: it fails with "confidence must be in (0, 1)".
\<close>

theorem confidence_normalization:
  "(main f icdf cb c m p cur = Inl ConfidencePercentage
      \<longleftrightarrow> (\<exists>classes. parse_class_boxes f cb = Inr classes) \<and> 100 \<le> c)
   \<and> (\<forall>r. main f icdf cb c m p cur = Inr r \<longrightarrow>
         confidence_used r = (if 1 < c then c / 100 else c)
         \<and> z_used r = icdf (1 / 2 + confidence_used r / 2))
   \<and> ((\<exists>classes. parse_class_boxes f cb = Inr classes) \<longrightarrow>
         main f icdf cb 1 m p cur = Inl ConfidenceRange)"
proof (intro conjI allI impI)
  show "main f icdf cb c m p cur = Inl ConfidencePercentage
      \<longleftrightarrow> (\<exists>classes. parse_class_boxes f cb = Inr classes) \<and> 100 \<le> c"
    by (rule main_ConfidencePercentage_iff)
next
  fix r assume a: "main f icdf cb c m p cur = Inr r"
  from main_Inr_D [OF a] have n: "normalize_confidence c = Inr (confidence_used r)"
    and z: "z_score icdf (confidence_used r) = Inr (z_used r)" by auto
  from n show "confidence_used r = (if 1 < c then c / 100 else c)"
    by (auto simp: normalize_confidence_def split: if_splits)
  from z show "z_used r = icdf (1 / 2 + confidence_used r / 2)"
    by (auto simp: z_score_def split: if_splits)
next
  assume "\<exists>classes. parse_class_boxes f cb = Inr classes"
  then show "main f icdf cb 1 m p cur = Inl ConfidenceRange"
    by (auto simp: main_def normalize_confidence_def z_score_def)
qed

theorem confidence_normalization_witness:
  "(\<exists>r. main py_float std_normal_inv_cdf ''header:1'' 95 (5 / 100) (1 / 2) None = Inr r
        \<and> confidence_used r = 95 / 100
        \<and> z_used r = std_normal_inv_cdf (1 / 2 + confidence_used r / 2))
   \<and> main py_float std_normal_inv_cdf ''header:1'' 100 (5 / 100) (1 / 2) None
       = Inl ConfidencePercentage
   \<and> main py_float std_normal_inv_cdf ''header:1'' 1 (5 / 100) (1 / 2) None
       = Inl ConfidenceRange"
proof -
  have p: "\<exists>classes. parse_class_boxes py_float ''header:1'' = Inr classes"
    using parse_header_one by simp
  have "\<exists>r. main py_float std_normal_inv_cdf ''header:1'' 95 (5 / 100) (1 / 2) None = Inr r"
    by (simp add: main_def parse_header_one normalize_confidence_def z_score_def
        required_boxes_def max_values_def margin_report_def)
  then obtain r where
    r: "main py_float std_normal_inv_cdf ''header:1'' 95 (5 / 100) (1 / 2) None = Inr r"
    by blast
  note t = confidence_normalization
    [of py_float std_normal_inv_cdf "''header:1''" _ "5 / 100" "1 / 2" None]
  have a: "confidence_used r = 95 / 100
           \<and> z_used r = std_normal_inv_cdf (1 / 2 + confidence_used r / 2)"
    using t [of 95] r by simp
  have b: "main py_float std_normal_inv_cdf ''header:1'' 100 (5 / 100) (1 / 2) None
           = Inl ConfidencePercentage"
    using t [of 100] p by simp
  have c: "main py_float std_normal_inv_cdf ''header:1'' 1 (5 / 100) (1 / 2) None
           = Inl ConfidenceRange"
    using t [of 95] p by simp
  from r a b c show ?thesis by blast
qed

text \<open>
  C4, as stated, fails on an empty name: nothing in \<^verbatim>\<open>parse_class_boxes\<close> looks at the
  name, and \<^verbatim>\<open>":1"\<close> parses to the dictionary with the empty name.
\<close>

theorem empty_name_counterexample:
  "parse_class_boxes py_float '':1'' = Inr [('''', 1)]"
  by (simp add: eval_defs)

text \<open>
  C4, amended. For every input string (and whatever strings \<^verbatim>\<open>float\<close> accepts), parsing
  fails exactly when some non-empty trimmed chunk lacks a colon, or the text after the
  first colon of some chunk fails to parse as a number, or there is no non-empty chunk.
  An empty name is accepted.
\<close>

theorem parse_failure_conditions:
  "(\<exists>e. parse_class_boxes float_of raw = Inl e) \<longleftrightarrow>
     (\<exists>c \<in> set (chunks_of raw). CHR '':'' \<notin> set c)
     \<or> (\<exists>c \<in> set (chunks_of raw). CHR '':'' \<in> set c \<and> float_of (value_text c) = None)
     \<or> chunks_of raw = []"
  by (rule parse_class_boxes_Inl_iff)

theorem parse_failure_conditions_witness:
  "(\<exists>e. parse_class_boxes py_float ''bad'' = Inl e)
   \<and> (\<exists>c \<in> set (chunks_of ''bad''). CHR '':'' \<notin> set c)"
  using parse_failure_conditions [of py_float "''bad''"] by (simp add: chunks_bad)

text \<open>
  C5. A current image count of \<open>0\<close> is no error in the code: \<^verbatim>\<open>if args.current_images:\<close>
  is false for \<open>0\<close> as it is for \<^verbatim>\<open>None\<close>, and the run is the run without a count. A
  negative count does reach the guard of \<open>margin_from_boxes\<close> and fails there
  (\<open>main_negative_current_images\<close>).
\<close>

theorem current_images_zero_skipped:
  "main float_of inv_cdf class_boxes c m p (Some 0) = main float_of inv_cdf class_boxes c m p None
   \<and> main py_float std_normal_inv_cdf ''header:1'' (95 / 100) (5 / 100) (1 / 2) (Some 0)
       = Inr \<lparr>confidence_used = 95 / 100, z_used = std_normal_inv_cdf (975 / 1000),
              boxes_needed = (std_normal_inv_cdf (975 / 1000))\<^sup>2 * 100,
              per_class = [(''header'', 385)], recommended = 385, current_margins = None\<rparr>"
  using main_header_one_zero by (simp add: main_def margin_report_zero split: sum.splits)

text \<open>
  C9. For every well-formed input string, parsing returns a dictionary with distinct
  names in which every name is mapped to the parsed value of the last pair that carries
  it, and to nothing if no pair carries it; a repeated name is no error. In particular
  \<^verbatim>\<open>"header:1,body:1.5"\<close> parses to \<^verbatim>\<open>{header: 1.0, body: 1.5}\<close> and
  \<^verbatim>\<open>"header:1,header:2"\<close> to \<^verbatim>\<open>{header: 2.0}\<close>.
\<close>

theorem parse_last_write_wins:
  "(well_formed float_of raw \<longrightarrow>
      (\<exists>entries. parse_class_boxes float_of raw = Inr entries
          \<and> distinct (map fst entries)
          \<and> (\<forall>k. map_of entries k = last_value k (pairs_of float_of raw))))
   \<and> parse_class_boxes py_float ''header:1,body:1.5'' = Inr [(''header'', 1), (''body'', 3 / 2)]
   \<and> parse_class_boxes py_float ''header:1,header:2'' = Inr [(''header'', 2)]"
  using parse_class_boxes_well_formed [of float_of raw] parse_ex1 parse_ex2
  by (auto simp: last_value_map_of)

theorem parse_last_write_wins_witness:
  "well_formed py_float ''header:1,header:2''
   \<and> pairs_of py_float ''header:1,header:2'' = [(''header'', 1), (''header'', 2)]
   \<and> (\<exists>entries. parse_class_boxes py_float ''header:1,header:2'' = Inr entries
          \<and> map_of entries ''header'' = Some 2)"
proof -
  from parse_last_write_wins [of py_float "''header:1,header:2''"] wf_ex
  obtain entries where e: "parse_class_boxes py_float ''header:1,header:2'' = Inr entries"
    and m: "\<forall>k. map_of entries k = last_value k (pairs_of py_float ''header:1,header:2'')"
    by blast
  from m have "map_of entries ''header'' = Some 2" by (simp add: pairs_ex)
  with e wf_ex pairs_ex show ?thesis by blast
qed



end
